theory Spec2Isabelle
  imports Complex_Main
begin

section \<open>Personal finance planner: the four calculations of fincalc.py\<close>

text \<open>
  The script computes a budget balance, the time to reach a savings goal, a loan's
  monthly instalment with its amortization schedule, and an investment projection.
  Each calculation is embedded below as a function of the values its widgets return.

  A Python \<open>float\<close> is an IEEE 754 binary64 number. The embedding rounds the result of
  every arithmetic operation to the nearest binary64 number, ties to even, and carries
  the infinities and \<open>nan\<close> that an operation can produce. The sign of a zero is not
  kept; the script never looks at it. The two library functions, \<open>log\<close> and \<open>pow\<close>, are
  parameters of the embedding, since the C library does not fix their last bit.
  Exceptions are values: a calculation returns \<open>Inl\<close> of the exception or \<open>Inr\<close> of its
  result. A \<open>datetime\<close> is a count of microseconds within the range of the type, and
  \<open>datetime.now()\<close> is a parameter.
\<close>

subsection \<open>Rounding to binary64\<close>

text \<open>The nearest integer, ties to the even one.\<close>

definition rne :: "real \<Rightarrow> int" where
  "rne t =
     (let f = \<lfloor>t\<rfloor>; d = t - of_int f
      in if d < 1 / 2 then f
         else if 1 / 2 < d then f + 1
         else if even f then f else f + 1)"

text \<open>
  The binary exponent of a number, not below that of the smallest normal number, and
  the spacing of the binary64 numbers at that exponent (53 significant bits).
\<close>

definition expo :: "real \<Rightarrow> int" where
  "expo x = (if \<bar>x\<bar> < 2 powi (- 1022) then - 1022 else \<lfloor>log 2 \<bar>x\<bar>\<rfloor>)"

definition ulp :: "real \<Rightarrow> real" where
  "ulp x = 2 powi (expo x - 52)"

definition rnd :: "real \<Rightarrow> real" where
  "rnd x = ulp x * of_int (rne (x / ulp x))"

subsection \<open>Float values and exceptions\<close>

datatype pyfloat = Fin real | PosInf | NegInf | NaN

text \<open>
  \<open>ComplexResult\<close> is not an exception: it marks the one place where a Python value
  leaves the floats (a negative number to a fractional power); the embedding stops there.
\<close>

datatype py_error = ZeroDivisionError | ValueError | OverflowError | IndexError | ComplexResult

text \<open>A rounded result overflows to an infinity from \<open>2 ^ 1024\<close> on.\<close>

definition overflow_threshold :: real where
  "overflow_threshold = 2 ^ 1024"

definition b64 :: "real \<Rightarrow> pyfloat" where
  "b64 x =
     (let y = rnd x
      in if overflow_threshold \<le> y then PosInf
         else if y \<le> - overflow_threshold then NegInf
         else Fin y)"

fun f_le :: "pyfloat \<Rightarrow> pyfloat \<Rightarrow> bool" where
  "f_le NaN _ = False"
| "f_le _ NaN = False"
| "f_le NegInf _ = True"
| "f_le _ PosInf = True"
| "f_le (Fin x) (Fin y) = (x \<le> y)"
| "f_le PosInf _ = False"
| "f_le _ NegInf = False"

definition f_lt :: "pyfloat \<Rightarrow> pyfloat \<Rightarrow> bool" where
  "f_lt a b = (f_le a b \<and> \<not> f_le b a)"

definition f_eq :: "pyfloat \<Rightarrow> pyfloat \<Rightarrow> bool" where
  "f_eq a b = (f_le a b \<and> f_le b a)"

fun fneg :: "pyfloat \<Rightarrow> pyfloat" where
  "fneg (Fin x) = Fin (- x)"
| "fneg PosInf = NegInf"
| "fneg NegInf = PosInf"
| "fneg NaN = NaN"

fun fadd :: "pyfloat \<Rightarrow> pyfloat \<Rightarrow> pyfloat" where
  "fadd (Fin x) (Fin y) = b64 (x + y)"
| "fadd NaN _ = NaN"
| "fadd _ NaN = NaN"
| "fadd PosInf NegInf = NaN"
| "fadd NegInf PosInf = NaN"
| "fadd PosInf _ = PosInf"
| "fadd _ PosInf = PosInf"
| "fadd NegInf _ = NegInf"
| "fadd _ NegInf = NegInf"

definition fsub :: "pyfloat \<Rightarrow> pyfloat \<Rightarrow> pyfloat" where
  "fsub a b = fadd a (fneg b)"

text \<open>The sign of a float as an infinity, for products and quotients with an infinity.\<close>

fun inf_of_sign :: "bool \<Rightarrow> pyfloat" where
  "inf_of_sign True = PosInf"
| "inf_of_sign False = NegInf"

fun fmul :: "pyfloat \<Rightarrow> pyfloat \<Rightarrow> pyfloat" where
  "fmul (Fin x) (Fin y) = b64 (x * y)"
| "fmul NaN _ = NaN"
| "fmul _ NaN = NaN"
| "fmul PosInf (Fin y) = (if y = 0 then NaN else inf_of_sign (0 < y))"
| "fmul NegInf (Fin y) = (if y = 0 then NaN else inf_of_sign (y < 0))"
| "fmul (Fin x) PosInf = (if x = 0 then NaN else inf_of_sign (0 < x))"
| "fmul (Fin x) NegInf = (if x = 0 then NaN else inf_of_sign (x < 0))"
| "fmul PosInf PosInf = PosInf"
| "fmul PosInf NegInf = NegInf"
| "fmul NegInf PosInf = NegInf"
| "fmul NegInf NegInf = PosInf"

text \<open>
  IEEE division, as NumPy does it: a zero divisor gives an infinity or \<open>nan\<close>, never an
  exception.
\<close>

fun ieee_div :: "pyfloat \<Rightarrow> pyfloat \<Rightarrow> pyfloat" where
  "ieee_div NaN _ = NaN"
| "ieee_div _ NaN = NaN"
| "ieee_div (Fin x) (Fin y) =
     (if y = 0 then (if x = 0 then NaN else inf_of_sign (0 < x)) else b64 (x / y))"
| "ieee_div (Fin x) PosInf = Fin 0"
| "ieee_div (Fin x) NegInf = Fin 0"
| "ieee_div PosInf (Fin y) = inf_of_sign (0 \<le> y)"
| "ieee_div NegInf (Fin y) = inf_of_sign (y < 0)"
| "ieee_div PosInf PosInf = NaN"
| "ieee_div PosInf NegInf = NaN"
| "ieee_div NegInf PosInf = NaN"
| "ieee_div NegInf NegInf = NaN"

text \<open>Python's \<open>x / y\<close> on floats raises on a zero divisor and is IEEE division otherwise.\<close>

definition py_div :: "pyfloat \<Rightarrow> pyfloat \<Rightarrow> py_error + pyfloat" where
  "py_div a b = (if b = Fin 0 then Inl ZeroDivisionError else Inr (ieee_div a b))"

text \<open>
  An \<open>int\<close> operand of a float operation is converted to the nearest float; the
  conversion raises when the integer is beyond the range.
\<close>

definition float_of_int :: "int \<Rightarrow> py_error + real" where
  "float_of_int n = (case b64 (of_int n) of Fin y \<Rightarrow> Inr y | _ \<Rightarrow> Inl OverflowError)"

subsection \<open>The library functions\<close>

text \<open>
  \<open>m_log x\<close> is the library's logarithm of a positive finite \<open>x\<close>, and \<open>m_pow x y\<close> its
  power for a positive finite base other than 1 and a finite exponent other than 0.
\<close>

record libm =
  m_log :: "real \<Rightarrow> real"
  m_pow :: "real \<Rightarrow> real \<Rightarrow> pyfloat"

text \<open>
  What is assumed of the power where a theorem needs it: for a base of at least 1 and
  an exponent of at least 0, with the exact power below \<open>2 ^ 1023\<close>, the result is finite
  and within one unit in the last place, \<open>2 ^ -52\<close> relative, of the exact power.
\<close>

definition pow_ok :: "libm \<Rightarrow> bool" where
  "pow_ok lm =
     (\<forall>x y. 1 \<le> x \<and> 0 \<le> y \<and> x powr y < 2 ^ 1023 \<longrightarrow>
        (\<exists>w. m_pow lm x y = Fin w \<and> \<bar>w - x powr y\<bar> \<le> x powr y / 2 ^ 52))"

text \<open>The correctly rounded library: every result is the float nearest the exact value.\<close>

definition libm_exact :: libm where
  "libm_exact = \<lparr>m_log = (\<lambda>x. rnd (ln x)), m_pow = (\<lambda>x y. b64 (x powr y))\<rparr>"

text \<open>\<open>np.log\<close>: \<open>-inf\<close> at zero and \<open>nan\<close> below it (a warning, not an exception).\<close>

fun np_log :: "libm \<Rightarrow> pyfloat \<Rightarrow> pyfloat" where
  "np_log lm (Fin x) = (if 0 < x then Fin (m_log lm x) else if x = 0 then NegInf else NaN)"
| "np_log lm PosInf = PosInf"
| "np_log lm NegInf = NaN"
| "np_log lm NaN = NaN"

fun np_ceil :: "pyfloat \<Rightarrow> pyfloat" where
  "np_ceil (Fin x) = Fin (of_int \<lceil>x\<rceil>)"
| "np_ceil PosInf = PosInf"
| "np_ceil NegInf = NegInf"
| "np_ceil NaN = NaN"

text \<open>
  \<open>int(x)\<close> truncates towards zero; it raises \<open>ValueError\<close> on \<open>nan\<close> and
  \<open>OverflowError\<close> on an infinity.
\<close>

fun py_int :: "pyfloat \<Rightarrow> py_error + int" where
  "py_int (Fin x) = Inr (if 0 \<le> x then \<lfloor>x\<rfloor> else \<lceil>x\<rceil>)"
| "py_int NaN = Inl ValueError"
| "py_int PosInf = Inl OverflowError"
| "py_int NegInf = Inl OverflowError"

text \<open>
  \<open>x ** y\<close> with a float \<open>x\<close> and a finite float \<open>y\<close>, in the order of CPython's
  \<open>float_pow\<close>: the exponent 0, a \<open>nan\<close> or infinite base, the base 0, a negative base
  (complex for a fractional exponent, the sign of the result for an odd one), the base
  1, and then the library, whose overflow raises \<open>OverflowError\<close>.
\<close>

definition odd_integer :: "real \<Rightarrow> bool" where
  "odd_integer y = (y = of_int \<lfloor>y\<rfloor> \<and> odd \<lfloor>y\<rfloor>)"

definition py_pow :: "libm \<Rightarrow> pyfloat \<Rightarrow> real \<Rightarrow> py_error + pyfloat" where
  "py_pow lm base y =
     (if y = 0 then Inr (Fin 1)
      else case base of
        NaN \<Rightarrow> Inr NaN
      | PosInf \<Rightarrow> Inr (if 0 < y then PosInf else Fin 0)
      | NegInf \<Rightarrow> Inr (if 0 < y then (if odd_integer y then NegInf else PosInf) else Fin 0)
      | Fin x \<Rightarrow>
          if x = 0 then (if y < 0 then Inl ZeroDivisionError else Inr (Fin 0))
          else if x < 0 \<and> y \<noteq> of_int \<lfloor>y\<rfloor> then Inl ComplexResult
          else if \<bar>x\<bar> = 1 then Inr (Fin (if x < 0 \<and> odd_integer y then - 1 else 1))
          else case m_pow lm \<bar>x\<bar> y of
                 Fin w \<Rightarrow> Inr (Fin (if x < 0 \<and> odd_integer y then - w else w))
               | NaN \<Rightarrow> Inl ValueError
               | _ \<Rightarrow> Inl OverflowError)"

text \<open>\<open>xs[-1]\<close> raises \<open>IndexError\<close> on an empty list.\<close>

definition py_last :: "'a list \<Rightarrow> py_error + 'a" where
  "py_last xs = (if xs = [] then Inl IndexError else Inr (last xs))"

subsection \<open>Dates\<close>

text \<open>
  A \<open>datetime\<close> as microseconds since 0001-01-01 00:00:00; the last one is
  9999-12-31 23:59:59.999999. Adding a \<open>timedelta\<close> raises \<open>OverflowError\<close> when the
  result is outside the range.
\<close>

type_synonym datetime = int

definition datetime_max :: int where
  "datetime_max = 315537897599999999"

definition timedelta_days :: "int \<Rightarrow> int" where
  "timedelta_days d = d * 86400000000"

definition dt_add :: "datetime \<Rightarrow> int \<Rightarrow> py_error + datetime" where
  "dt_add d delta =
     (if d + delta < 0 \<or> datetime_max < d + delta then Inl OverflowError else Inr (d + delta))"

subsection \<open>Budget tracker (tab1)\<close>

text \<open>
  \<open>expenses\<close> is the dictionary filled from the nine number inputs, in insertion order:
  a list of (category, amount) pairs. \<open>sum(expenses.values())\<close> starts from 0 and adds
  the values from left to right, rounding after each addition. Neither the sum nor the
  subtraction can raise, so the result is always on the \<open>Inr\<close> side.
\<close>

record budget_result =
  total_expenses :: pyfloat
  balance :: pyfloat

definition py_sum :: "real list \<Rightarrow> pyfloat" where
  "py_sum xs = foldl fadd (Fin 0) (map Fin xs)"

definition summarizeBudget :: "real \<Rightarrow> (string \<times> real) list \<Rightarrow> py_error + budget_result" where
  "summarizeBudget income expenses =
     (let total = py_sum (map snd expenses)
      in Inr \<lparr>total_expenses = total, balance = fsub (Fin income) total\<rparr>)"

subsection \<open>Savings goal calculator (tab2)\<close>

text \<open>
  The months needed, lines 124 to 129. The function is entered only on the branch where
  \<open>monthly_savings > 0\<close> holds, so the two divisions by \<open>monthly_savings\<close> cannot raise.
  The quotient of the two logarithms is a division of \<open>numpy.float64\<close> values; it may be
  \<open>nan\<close> or infinite, on which \<open>int\<close> raises.
\<close>

definition months_to_goal :: "libm \<Rightarrow> pyfloat \<Rightarrow> pyfloat \<Rightarrow> pyfloat \<Rightarrow> py_error + int" where
  "months_to_goal lm monthly_rate remaining monthly_savings =
     (let months =
        (if f_eq monthly_rate (Fin 0) then ieee_div remaining monthly_savings
         else ieee_div
                (np_log lm (fadd (Fin 1) (ieee_div (fmul monthly_rate remaining) monthly_savings)))
                (np_log lm (fadd (Fin 1) monthly_rate)))
      in case py_int (np_ceil months) of
           Inl e \<Rightarrow> Inl e
         | Inr m \<Rightarrow> Inr (max 1 m))"

record savings_row =
  sv_date :: datetime
  sv_amount :: pyfloat

text \<open>
  The projection loop, lines 139 to 143: \<open>k\<close> iterations are left; each appends the
  current date and amount and then advances both. The date is advanced in the last
  iteration too, and an exception there loses the lists.
\<close>

fun savings_loop ::
  "nat \<Rightarrow> datetime \<Rightarrow> pyfloat \<Rightarrow> pyfloat \<Rightarrow> pyfloat \<Rightarrow> py_error + savings_row list" where
  "savings_loop 0 current_date current_amount monthly_rate monthly_savings = Inr []"
| "savings_loop (Suc k) current_date current_amount monthly_rate monthly_savings =
     (case dt_add current_date (timedelta_days 30) of
        Inl e \<Rightarrow> Inl e
      | Inr next_date \<Rightarrow>
          (case savings_loop k next_date
                  (fadd (fmul current_amount (fadd (Fin 1) monthly_rate)) monthly_savings)
                  monthly_rate monthly_savings of
             Inl e \<Rightarrow> Inl e
           | Inr rows \<Rightarrow> Inr (\<lparr>sv_date = current_date, sv_amount = current_amount\<rparr> # rows)))"

record savings_projection =
  sg_months :: int
  sg_years :: int
  sg_remaining_months :: int
  sg_series :: "savings_row list"
  sg_final_amount :: pyfloat

text \<open>
  The three outcomes of pressing the button: the error message about the monthly
  savings, the message that the goal is already reached, or the time to the goal with
  its projection. \<open>months\<close> is at least 1 there, so the lists hold at least two entries
  and \<open>amounts[-1]\<close> is the last amount.
\<close>

datatype savings_outcome = InvalidInput | GoalAlreadyReached | TimeToGoal savings_projection

definition solveSavingsGoal ::
  "libm \<Rightarrow> datetime \<Rightarrow> real \<Rightarrow> real \<Rightarrow> real \<Rightarrow> real \<Rightarrow> real \<Rightarrow> py_error + savings_outcome" where
  "solveSavingsGoal lm now goal_amount monthly_savings current_savings interest_rate
       inflation_rate =
     (if monthly_savings \<le> 0 then Inr InvalidInput
      else
        let remaining = fsub (Fin goal_amount) (Fin current_savings) in
        if f_le remaining (Fin 0) then Inr GoalAlreadyReached
        else
          case py_div (fadd (Fin 1) (b64 (interest_rate / 100)))
                      (fadd (Fin 1) (b64 (inflation_rate / 100))) of
            Inl e \<Rightarrow> Inl e
          | Inr q \<Rightarrow>
              let real_interest_rate = fsub q (Fin 1);
                  monthly_rate = ieee_div real_interest_rate (Fin 12)
              in case months_to_goal lm monthly_rate remaining (Fin monthly_savings) of
                   Inl e \<Rightarrow> Inl e
                 | Inr months \<Rightarrow>
                     (case savings_loop (nat (months + 1)) now (Fin current_savings)
                             monthly_rate (Fin monthly_savings) of
                        Inl e \<Rightarrow> Inl e
                      | Inr rows \<Rightarrow>
                          Inr (TimeToGoal
                            \<lparr>sg_months = months,
                             sg_years = months div 12,
                             sg_remaining_months = months mod 12,
                             sg_series = rows,
                             sg_final_amount = sv_amount (last rows)\<rparr>)))"

subsection \<open>EMI calculator (tab3)\<close>

text \<open>
  Line 189: \<open>interest_rate / 12 / 100\<close>, two divisions by a converted integer.
\<close>

definition loan_monthly_rate :: "real \<Rightarrow> pyfloat" where
  "loan_monthly_rate interest_rate = ieee_div (b64 (interest_rate / 12)) (Fin 100)"

text \<open>
  The instalment, lines 191 to 194; \<open>principal_amount\<close> is the script's
  \<open>principal\<close>. \<open>total_tenure_months\<close> is an integer; in the script it is
  \<open>tenure_years * 12 + tenure_months\<close> of two sliders. The power is computed twice in
  the script, with the same operands.
\<close>

definition compute_emi :: "libm \<Rightarrow> real \<Rightarrow> pyfloat \<Rightarrow> int \<Rightarrow> py_error + pyfloat" where
  "compute_emi lm principal_amount monthly_rate total_tenure_months =
     (case float_of_int total_tenure_months of
        Inl e \<Rightarrow> Inl e
      | Inr n \<Rightarrow>
          if f_eq monthly_rate (Fin 0) then py_div (Fin principal_amount) (Fin n)
          else
            case py_pow lm (fadd (Fin 1) monthly_rate) n of
              Inl e \<Rightarrow> Inl e
            | Inr p \<Rightarrow>
                py_div (fmul (fmul (Fin principal_amount) monthly_rate) p) (fsub p (Fin 1)))"

record amort_row =
  am_month :: int
  am_principal :: pyfloat
  am_interest :: pyfloat
  am_balance :: pyfloat

text \<open>
  The schedule loop, lines 215 to 223, with \<open>k\<close> iterations left. The running balance
  is carried on unclamped; the recorded balance is 0 unless the running one is above 0.
\<close>

fun amort_loop :: "nat \<Rightarrow> int \<Rightarrow> pyfloat \<Rightarrow> pyfloat \<Rightarrow> pyfloat \<Rightarrow> amort_row list" where
  "amort_loop 0 month current_balance monthly_rate emi = []"
| "amort_loop (Suc k) month current_balance monthly_rate emi =
     (let interest_payment = fmul current_balance monthly_rate;
          principal_payment = fsub emi interest_payment;
          new_balance = fsub current_balance principal_payment
      in \<lparr>am_month = month,
          am_principal = principal_payment,
          am_interest = interest_payment,
          am_balance = (if f_lt (Fin 0) new_balance then new_balance else Fin 0)\<rparr> #
         amort_loop k (month + 1) new_balance monthly_rate emi)"

text \<open>\<open>range(1, total_tenure_months + 1)\<close> is empty when the tenure is not positive.\<close>

definition amortization_schedule :: "real \<Rightarrow> pyfloat \<Rightarrow> pyfloat \<Rightarrow> int \<Rightarrow> amort_row list" where
  "amortization_schedule principal_amount monthly_rate emi total_tenure_months =
     amort_loop (nat total_tenure_months) 1 (Fin principal_amount) monthly_rate emi"

text \<open>
  The loop variable \<open>current_balance\<close> after \<open>k\<close> passes of the schedule loop, which the
  rows record only clamped.
\<close>

fun running_balance :: "nat \<Rightarrow> pyfloat \<Rightarrow> pyfloat \<Rightarrow> pyfloat \<Rightarrow> pyfloat" where
  "running_balance 0 current_balance monthly_rate emi = current_balance"
| "running_balance (Suc k) current_balance monthly_rate emi =
     running_balance k
       (fsub current_balance (fsub emi (fmul current_balance monthly_rate))) monthly_rate emi"

record loan_result =
  lr_emi :: pyfloat
  lr_total_payment :: pyfloat
  lr_total_interest :: pyfloat
  lr_schedule :: "amort_row list option"

text \<open>
  Lines 188 to 223. The conversion of the tenure for \<open>emi * total_tenure_months\<close> is the
  one already made for the instalment, so it cannot raise again.
\<close>

definition computeLoan :: "libm \<Rightarrow> real \<Rightarrow> real \<Rightarrow> int \<Rightarrow> bool \<Rightarrow> py_error + loan_result" where
  "computeLoan lm principal_amount interest_rate total_tenure_months show_schedule =
     (let monthly_rate = loan_monthly_rate interest_rate
      in case compute_emi lm principal_amount monthly_rate total_tenure_months of
           Inl e \<Rightarrow> Inl e
         | Inr emi \<Rightarrow>
             let total_payment = fmul emi (b64 (of_int total_tenure_months))
             in Inr \<lparr>lr_emi = emi,
                     lr_total_payment = total_payment,
                     lr_total_interest = fsub total_payment (Fin principal_amount),
                     lr_schedule =
                       (if show_schedule
                        then Some (amortization_schedule principal_amount monthly_rate emi
                                     total_tenure_months)
                        else None)\<rparr>)"

subsection \<open>Investment simulator (tab4)\<close>

text \<open>
  Lines 272 and 273: \<open>(1 + annual / 100) ** (1 / 12) - 1\<close>. The exponent is the float
  nearest to one twelfth.
\<close>

definition monthly_of_annual :: "libm \<Rightarrow> real \<Rightarrow> py_error + pyfloat" where
  "monthly_of_annual lm annual =
     (case py_pow lm (fadd (Fin 1) (b64 (annual / 100))) (rnd (1 / 12)) of
        Inl e \<Rightarrow> Inl e
      | Inr p \<Rightarrow> Inr (fsub p (Fin 1)))"

record investment_row =
  iv_date :: datetime
  iv_nominal :: pyfloat
  iv_real :: pyfloat
  iv_contributions :: pyfloat

text \<open>
  The update of the running values, lines 297 to 299: the part of the body of
  \<open>if month < months\<close> that cannot raise.
\<close>

definition invest_step ::
  "pyfloat \<Rightarrow> pyfloat \<Rightarrow> pyfloat \<Rightarrow> datetime \<Rightarrow> investment_row \<Rightarrow> investment_row" where
  "invest_step monthly_return real_monthly_return monthly_contribution next_date cur =
     \<lparr>iv_date = next_date,
      iv_nominal = fadd (fmul (iv_nominal cur) (fadd (Fin 1) monthly_return)) monthly_contribution,
      iv_real = fadd (fmul (iv_real cur) (fadd (Fin 1) real_monthly_return)) monthly_contribution,
      iv_contributions = fadd (iv_contributions cur) monthly_contribution\<rparr>"

text \<open>
  The simulation loop, lines 289 to 299: \<open>k\<close> iterations are left, \<open>month\<close> is the loop
  variable and \<open>cur\<close> holds the current date and the three running values. Each
  iteration appends them; the update, which starts with the date (line 296), is skipped
  in the last one.
\<close>

fun investment_loop ::
  "nat \<Rightarrow> int \<Rightarrow> int \<Rightarrow> pyfloat \<Rightarrow> pyfloat \<Rightarrow> pyfloat \<Rightarrow> investment_row \<Rightarrow>
     py_error + investment_row list" where
  "investment_loop 0 month months monthly_return real_monthly_return monthly_contribution cur =
     Inr []"
| "investment_loop (Suc k) month months monthly_return real_monthly_return monthly_contribution
       cur =
     (if month < months
      then case dt_add (iv_date cur) (timedelta_days 30) of
             Inl e \<Rightarrow> Inl e
           | Inr next_date \<Rightarrow>
               (case investment_loop k (month + 1) months monthly_return real_monthly_return
                       monthly_contribution
                       (invest_step monthly_return real_monthly_return monthly_contribution
                          next_date cur) of
                  Inl e \<Rightarrow> Inl e
                | Inr rows \<Rightarrow> Inr (cur # rows))
      else case investment_loop k (month + 1) months monthly_return real_monthly_return
                  monthly_contribution cur of
             Inl e \<Rightarrow> Inl e
           | Inr rows \<Rightarrow> Inr (cur # rows))"

record investment_result =
  ir_series :: "investment_row list"
  ir_final_nominal :: pyfloat
  ir_final_real :: pyfloat
  ir_total_contributed :: pyfloat
  ir_growth_nominal :: pyfloat
  ir_growth_real :: pyfloat

definition simulateInvestment ::
  "libm \<Rightarrow> datetime \<Rightarrow> real \<Rightarrow> real \<Rightarrow> int \<Rightarrow> real \<Rightarrow> real \<Rightarrow> py_error + investment_result" where
  "simulateInvestment lm now initial_investment monthly_contribution years annual_return
       annual_inflation =
     (let months = years * 12
      in case monthly_of_annual lm annual_return of
           Inl e \<Rightarrow> Inl e
         | Inr monthly_return \<Rightarrow>
         (case monthly_of_annual lm annual_inflation of
           Inl e \<Rightarrow> Inl e
         | Inr monthly_inflation \<Rightarrow>
         (case py_div (fadd (Fin 1) monthly_return) (fadd (Fin 1) monthly_inflation) of
           Inl e \<Rightarrow> Inl e
         | Inr q \<Rightarrow>
             let real_monthly_return = fsub q (Fin 1)
             in case investment_loop (nat (months + 1)) 0 months monthly_return
                       real_monthly_return (Fin monthly_contribution)
                       \<lparr>iv_date = now,
                        iv_nominal = Fin initial_investment,
                        iv_real = Fin initial_investment,
                        iv_contributions = Fin initial_investment\<rparr> of
                  Inl e \<Rightarrow> Inl e
                | Inr rows \<Rightarrow>
                    (case py_last rows of
                       Inl e \<Rightarrow> Inl e
                     | Inr final \<Rightarrow>
                         let final_nominal = iv_nominal final;
                             final_real = iv_real final;
                             total_contributed = iv_contributions final
                         in Inr \<lparr>ir_series = rows,
                                 ir_final_nominal = final_nominal,
                                 ir_final_real = final_real,
                                 ir_total_contributed = total_contributed,
                                 ir_growth_nominal = fsub final_nominal total_contributed,
                                 ir_growth_real = fsub final_real total_contributed\<rparr>))))"

subsection \<open>The month count as the specification words it\<close>

text \<open>
  The specification gives the rates as fractions (0.035, not 3.5):
  \<open>monthlyRate = ((1 + interestRate) / (1 + inflationRate) - 1) / 12\<close>, and the months
  as \<open>remaining / monthlySavings\<close> at a zero rate and as
  \<open>log(1 + monthlyRate * remaining / monthlySavings) / log(1 + monthlyRate)\<close> otherwise,
  before rounding up. Below, each formula is computed in binary64, operation by
  operation, and has a value only where every intermediate result is a finite number,
  no divisor is zero and each logarithm has a positive argument.
\<close>

fun fin_of :: "pyfloat \<Rightarrow> real option" where
  "fin_of (Fin x) = Some x"
| "fin_of PosInf = None"
| "fin_of NegInf = None"
| "fin_of NaN = None"

definition spec_monthly_rate :: "real \<Rightarrow> real \<Rightarrow> real option" where
  "spec_monthly_rate interestRate inflationRate =
     (case fadd (Fin 1) (Fin inflationRate) of
        Fin d \<Rightarrow>
          if d = 0 then None
          else fin_of (ieee_div
                 (fsub (ieee_div (fadd (Fin 1) (Fin interestRate)) (Fin d)) (Fin 1)) (Fin 12))
      | _ \<Rightarrow> None)"

definition spec_months :: "libm \<Rightarrow> real \<Rightarrow> real \<Rightarrow> real \<Rightarrow> real option" where
  "spec_months lm monthlyRate remaining monthlySavings =
     (if monthlyRate = 0 then fin_of (ieee_div (Fin remaining) (Fin monthlySavings))
      else
        case fadd (Fin 1)
               (ieee_div (fmul (Fin monthlyRate) (Fin remaining)) (Fin monthlySavings)) of
          Fin a \<Rightarrow>
            (case fadd (Fin 1) (Fin monthlyRate) of
               Fin b \<Rightarrow>
                 if 0 < a \<and> 0 < b
                 then fin_of (ieee_div (Fin (m_log lm a)) (Fin (m_log lm b)))
                 else None
             | _ \<Rightarrow> None)
        | _ \<Rightarrow> None)"

section \<open>Properties\<close>

subsection \<open>Rounding\<close>

lemma rne_cases:
  obtains (lo) "t - of_int \<lfloor>t\<rfloor> < 1 / 2" "rne t = \<lfloor>t\<rfloor>"
  | (hi) "1 / 2 < t - of_int \<lfloor>t\<rfloor>" "rne t = \<lfloor>t\<rfloor> + 1"
  | (tie_even) "t - of_int \<lfloor>t\<rfloor> = 1 / 2" "even \<lfloor>t\<rfloor>" "rne t = \<lfloor>t\<rfloor>"
  | (tie_odd) "t - of_int \<lfloor>t\<rfloor> = 1 / 2" "odd \<lfloor>t\<rfloor>" "rne t = \<lfloor>t\<rfloor> + 1"
  unfolding rne_def Let_def by (cases "t - of_int \<lfloor>t\<rfloor> < 1 / 2"; cases "1 / 2 < t - of_int \<lfloor>t\<rfloor>"; cases "even \<lfloor>t\<rfloor>"; simp)

lemma rne_err: "\<bar>of_int (rne t) - t\<bar> \<le> 1 / 2"
proof -
  have f: "of_int \<lfloor>t\<rfloor> \<le> t" "t < of_int \<lfloor>t\<rfloor> + 1" by linarith+
  show ?thesis
  proof (cases t rule: rne_cases)
    case lo
    then show ?thesis using f by simp
  next
    case hi
    then show ?thesis using f by simp
  next
    case tie_even
    then show ?thesis using f by simp
  next
    case tie_odd
    then show ?thesis using f by simp
  qed
qed

lemma rne_of_int [simp]: "rne (of_int k) = k"
  by (simp add: rne_def)

lemma rne_bounds: "\<lfloor>t\<rfloor> \<le> rne t" "rne t \<le> \<lfloor>t\<rfloor> + 1"
  by (cases t rule: rne_cases; simp)+


lemma rne_mono: "s \<le> t \<Longrightarrow> rne s \<le> rne t"
proof -
  assume st: "s \<le> t"
  have fl: "\<lfloor>s\<rfloor> \<le> \<lfloor>t\<rfloor>" using st by (rule floor_mono)
  show ?thesis
  proof (cases "\<lfloor>s\<rfloor> = \<lfloor>t\<rfloor>")
    case True
    have d: "s - of_int \<lfloor>s\<rfloor> \<le> t - of_int \<lfloor>s\<rfloor>" using st by simp
    show ?thesis
    proof (cases s rule: rne_cases)
      case lo
      then show ?thesis using rne_bounds(1) [of t] True by simp
    next
      case hi
      then have "1 / 2 < t - of_int \<lfloor>t\<rfloor>" using d True by simp
      then have "rne t = \<lfloor>t\<rfloor> + 1" by (cases t rule: rne_cases) simp_all
      then show ?thesis using hi True by simp
    next
      case tie_even
      then show ?thesis using rne_bounds(1) [of t] True by simp
    next
      case tie_odd
      then have "1 / 2 \<le> t - of_int \<lfloor>t\<rfloor>" "odd \<lfloor>t\<rfloor>" using d True by simp_all
      then have "rne t = \<lfloor>t\<rfloor> + 1" by (cases t rule: rne_cases) simp_all
      then show ?thesis using tie_odd True by simp
    qed
  next
    case False
    with fl have "\<lfloor>s\<rfloor> + 1 \<le> \<lfloor>t\<rfloor>" by simp
    then show ?thesis using rne_bounds(2) [of s] rne_bounds(1) [of t] by linarith
  qed
qed

lemma rne_nonneg: "0 \<le> t \<Longrightarrow> 0 \<le> rne t"
  using rne_mono [of 0 t] rne_of_int [of 0] by simp

lemma floor_minus_nonint:
  assumes "t \<noteq> of_int \<lfloor>t\<rfloor>"
  shows "\<lfloor>- t\<rfloor> = - \<lfloor>t\<rfloor> - 1"
proof (rule floor_unique)
  have "of_int \<lfloor>t\<rfloor> \<noteq> t" using assms by metis
  then have "of_int \<lfloor>t\<rfloor> < t" using of_int_floor_le [of t] by linarith
  moreover have "t < of_int \<lfloor>t\<rfloor> + 1" by linarith
  ultimately show "of_int (- \<lfloor>t\<rfloor> - 1) \<le> - t" "- t < of_int (- \<lfloor>t\<rfloor> - 1) + 1"
    by simp_all
qed

lemma rne_minus: "rne (- t) = - rne t"
proof (cases "t = of_int \<lfloor>t\<rfloor>")
  case True
  then have "rne t = \<lfloor>t\<rfloor>" by (metis rne_of_int)
  moreover have "- t = of_int (- \<lfloor>t\<rfloor>)" using True by simp
  then have "rne (- t) = - \<lfloor>t\<rfloor>" by (metis rne_of_int)
  ultimately show ?thesis by simp
next
  case False
  note fl = floor_minus_nonint [OF False]
  have d: "- t - of_int \<lfloor>- t\<rfloor> = 1 - (t - of_int \<lfloor>t\<rfloor>)" by (simp add: fl)
  show ?thesis
  proof (cases t rule: rne_cases)
    case lo
    then have "1 / 2 < - t - of_int \<lfloor>- t\<rfloor>" unfolding d by simp
    then have "rne (- t) = \<lfloor>- t\<rfloor> + 1" by (cases "- t" rule: rne_cases) simp_all
    then show ?thesis using lo fl by simp
  next
    case hi
    then have "- t - of_int \<lfloor>- t\<rfloor> < 1 / 2" unfolding d by simp
    then have "rne (- t) = \<lfloor>- t\<rfloor>" by (cases "- t" rule: rne_cases) simp_all
    then show ?thesis using hi fl by simp
  next
    case tie_even
    then have "- t - of_int \<lfloor>- t\<rfloor> = 1 / 2" "odd \<lfloor>- t\<rfloor>" unfolding d by (simp_all add: fl)
    then have "rne (- t) = \<lfloor>- t\<rfloor> + 1" by (cases "- t" rule: rne_cases) simp_all
    then show ?thesis using tie_even fl by simp
  next
    case tie_odd
    then have "- t - of_int \<lfloor>- t\<rfloor> = 1 / 2" "even \<lfloor>- t\<rfloor>" unfolding d by (simp_all add: fl)
    then have "rne (- t) = \<lfloor>- t\<rfloor>" by (cases "- t" rule: rne_cases) simp_all
    then show ?thesis using tie_odd fl by simp
  qed
qed


lemma two_powr_int: "(2::real) powr real_of_int k = 2 powi k"
  by (simp add: powr_real_of_int')

lemma two_powi_less_iff: "(2::real) powi m < 2 powi n \<longleftrightarrow> m < n"
proof
  assume l: "(2::real) powi m < 2 powi n"
  show "m < n"
  proof (rule ccontr)
    assume "\<not> m < n"
    then have "n \<le> m" by simp
    then have "(2::real) powi n \<le> 2 powi m" by (intro power_int_increasing) simp_all
    with l show False by simp
  qed
next
  assume "m < n"
  then show "(2::real) powi m < 2 powi n" by (intro power_int_strict_increasing) simp_all
qed

lemma two_powi_le_iff: "(2::real) powi m \<le> 2 powi n \<longleftrightarrow> m \<le> n"
  using two_powi_less_iff [of n m] by (simp add: not_less [symmetric])

lemma expo_subnormal: "\<bar>x\<bar> < 2 powi (- 1022) \<Longrightarrow> expo x = - 1022"
  by (simp add: expo_def)

lemma expo_unique:
  assumes "2 powi e \<le> \<bar>x\<bar>" "\<bar>x\<bar> < 2 powi (e + 1)" "- 1022 \<le> e"
  shows "expo x = e"
proof -
  have "(2::real) powi (- 1022) \<le> 2 powi e" using assms(3) by (intro power_int_increasing) simp_all
  then have n: "\<not> \<bar>x\<bar> < 2 powi (- 1022)" using assms(1) by linarith
  have pos: "0 < \<bar>x\<bar>" using assms(1) zero_less_power_int [of "2::real" e] by linarith
  have "\<lfloor>log 2 \<bar>x\<bar>\<rfloor> = e"
    using assms(1,2) floor_log_eq_powr_iff [OF pos, of 2 e]
    by (simp add: two_powr_int [symmetric])
  then show ?thesis using n by (simp add: expo_def)
qed

lemma expo_normal:
  assumes "2 powi (- 1022) \<le> \<bar>x\<bar>"
  shows "2 powi (expo x) \<le> \<bar>x\<bar>" "\<bar>x\<bar> < 2 powi (expo x + 1)" "- 1022 \<le> expo x"
proof -
  have pos: "0 < \<bar>x\<bar>" using assms zero_less_power_int [of "2::real" "- 1022"] by linarith
  have e: "expo x = \<lfloor>log 2 \<bar>x\<bar>\<rfloor>" using assms by (simp add: expo_def)
  have b: "2 powr real_of_int (expo x) \<le> \<bar>x\<bar> \<and> \<bar>x\<bar> < 2 powr (real_of_int (expo x) + 1)"
    using floor_log_eq_powr_iff [OF pos, of 2 "expo x"] e by simp
  have "2 powr (real_of_int (expo x) + 1) = (2::real) powi (expo x + 1)"
    using two_powr_int [of "expo x + 1"] by (simp add: add.commute)
  with b show "2 powi (expo x) \<le> \<bar>x\<bar>" "\<bar>x\<bar> < 2 powi (expo x + 1)"
    by (simp_all add: two_powr_int)
  have "(2::real) powi (- 1022) < 2 powi (expo x + 1)"
    using assms \<open>\<bar>x\<bar> < 2 powi (expo x + 1)\<close> by linarith
  then have "- 1022 < expo x + 1" by (simp only: two_powi_less_iff)
  then show "- 1022 \<le> expo x" by simp
qed

lemma expo_ge: "- 1022 \<le> expo x"
  using expo_normal(3) [of x] expo_subnormal [of x] by (cases "\<bar>x\<bar> < 2 powi (- 1022)") simp_all

lemma expo_upper: "\<bar>x\<bar> < 2 powi (expo x + 1)"
proof (cases "\<bar>x\<bar> < 2 powi (- 1022)")
  case True
  have "(2::real) powi (- 1022) \<le> 2 powi (- 1021)" by (intro power_int_increasing) simp_all
  then show ?thesis using True by (simp add: expo_subnormal)
next
  case False
  then show ?thesis using expo_normal(2) [of x] by simp
qed

lemma expo_minus [simp]: "expo (- x) = expo x"
  by (simp add: expo_def)

lemma expo_mono:
  assumes "\<bar>x\<bar> \<le> \<bar>y\<bar>"
  shows "expo x \<le> expo y"
proof (cases "\<bar>x\<bar> < 2 powi (- 1022)")
  case True
  then show ?thesis using expo_ge [of y] by (simp add: expo_subnormal)
next
  case False
  then have nx: "2 powi (- 1022) \<le> \<bar>x\<bar>" by simp
  then have ny: "2 powi (- 1022) \<le> \<bar>y\<bar>" using assms by linarith
  have "2 powi (expo x) \<le> \<bar>x\<bar>" by (rule expo_normal(1) [OF nx])
  also have "\<dots> \<le> \<bar>y\<bar>" by (rule assms)
  also have "\<dots> < 2 powi (expo y + 1)" by (rule expo_normal(2) [OF ny])
  finally have "(2::real) powi (expo x) < 2 powi (expo y + 1)" .
  then have "expo x < expo y + 1" by (simp only: two_powi_less_iff)
  then show ?thesis by simp
qed

lemma ulp_pos [simp]: "0 < ulp x"
  by (simp add: ulp_def)

lemma ulp_nz [simp]: "ulp x \<noteq> 0"
  using ulp_pos [of x] by linarith

lemma ulp_nonneg [simp]: "0 \<le> ulp x"
  using ulp_pos [of x] by linarith

lemma rne_0 [simp]: "rne 0 = 0"
  using rne_of_int [of 0] by simp

lemma ulp_minus [simp]: "ulp (- x) = ulp x"
  by (simp add: ulp_def)

lemma ulp_ge: "2 powi (- 1074) \<le> ulp x"
  unfolding ulp_def using expo_ge [of x] by (intro power_int_increasing) simp_all

lemma ulp_normal:
  assumes "2 powi (- 1022) \<le> \<bar>x\<bar>"
  shows "ulp x \<le> \<bar>x\<bar> / 2 ^ 52"
proof -
  have "ulp x = 2 powi (expo x) / 2 ^ 52"
    by (simp add: ulp_def power_int_diff)
  then show ?thesis using expo_normal(1) [OF assms] by (simp add: divide_right_mono)
qed

lemma ulp_subnormal: "\<bar>x\<bar> < 2 powi (- 1022) \<Longrightarrow> ulp x = 2 powi (- 1074)"
  by (simp add: ulp_def expo_subnormal)

lemma rnd_err: "\<bar>rnd x - x\<bar> \<le> ulp x / 2"
proof -
  have "rnd x - x = ulp x * (of_int (rne (x / ulp x)) - x / ulp x)"
    by (simp add: rnd_def algebra_simps)
  then have "\<bar>rnd x - x\<bar> = ulp x * \<bar>of_int (rne (x / ulp x)) - x / ulp x\<bar>"
    by (simp add: abs_mult)
  also have "\<dots> \<le> ulp x * (1 / 2)"
    by (intro mult_left_mono rne_err) simp
  finally show ?thesis by simp
qed

lemma rnd_rel:
  assumes "2 powi (- 1022) \<le> \<bar>x\<bar>"
  shows "\<bar>rnd x - x\<bar> \<le> \<bar>x\<bar> / 2 ^ 53"
proof -
  have "\<bar>rnd x - x\<bar> \<le> ulp x / 2" by (rule rnd_err)
  also have "\<dots> \<le> (\<bar>x\<bar> / 2 ^ 52) / 2" using ulp_normal [OF assms] by simp
  finally show ?thesis by simp
qed

lemma rnd_abs: "\<bar>rnd x - x\<bar> \<le> \<bar>x\<bar> / 2 ^ 53 + 2 powi (- 1075)"
proof (cases "\<bar>x\<bar> < 2 powi (- 1022)")
  case True
  have "\<bar>rnd x - x\<bar> \<le> ulp x / 2" by (rule rnd_err)
  also have "\<dots> = 2 powi (- 1075)"
    using ulp_subnormal [OF True] power_int_diff [of "2::real" "- 1074" 1] by simp
  finally show ?thesis by (smt (verit) divide_nonneg_pos abs_ge_zero zero_less_power zero_less_numeral)
next
  case False
  then have "\<bar>rnd x - x\<bar> \<le> \<bar>x\<bar> / 2 ^ 53" by (intro rnd_rel) simp
  then show ?thesis using zero_less_power_int [of "2::real" "- 1075"] by linarith
qed

lemma rnd_minus [simp]: "rnd (- x) = - rnd x"
  by (simp add: rnd_def rne_minus)

lemma rnd_0 [simp]: "rnd 0 = 0"
  by (simp add: rnd_def)

lemma rnd_nonneg: "0 \<le> x \<Longrightarrow> 0 \<le> rnd x"
  unfolding rnd_def by (intro mult_nonneg_nonneg) (simp_all add: rne_nonneg)

lemma rnd_nonpos: "x \<le> 0 \<Longrightarrow> rnd x \<le> 0"
  using rnd_nonneg [of "- x"] by simp


lemma div_ulp_less: "\<bar>x / ulp x\<bar> < 2 ^ 53"
proof -
  have "\<bar>x\<bar> < 2 powi (expo x + 1)" by (rule expo_upper)
  also have "\<dots> = ulp x * 2 ^ 53"
    by (simp add: ulp_def power_int_diff power_int_add)
  finally have "\<bar>x\<bar> / ulp x < 2 ^ 53" by (simp add: pos_divide_less_eq mult.commute)
  then show ?thesis by (simp add: abs_divide)
qed

lemma rne_div_ulp_bound: "\<bar>rne (x / ulp x)\<bar> \<le> 2 ^ 53"
proof -
  define t where "t = x / ulp x"
  have "\<bar>t\<bar> < 2 ^ 53" unfolding t_def by (rule div_ulp_less)
  then have "t \<le> of_int (2 ^ 53)" "of_int (- (2 ^ 53)) \<le> t" by simp_all
  then have a: "x / ulp x \<le> of_int (2 ^ 53)" "of_int (- (2 ^ 53)) \<le> x / ulp x"
    by (simp_all only: t_def)
  have "rne (x / ulp x) \<le> 2 ^ 53" using rne_mono [OF a(1)] by (simp only: rne_of_int)
  moreover have "- (2 ^ 53) \<le> rne (x / ulp x)" using rne_mono [OF a(2)] by (simp only: rne_of_int)
  ultimately show ?thesis by simp
qed

lemma rnd_upper: "0 \<le> x \<Longrightarrow> rnd x \<le> 2 powi (expo x + 1)"
proof -
  have "rnd x \<le> ulp x * of_int (2 ^ 53)"
    unfolding rnd_def using rne_div_ulp_bound [of x]
    by (intro mult_left_mono) simp_all
  also have "\<dots> = 2 powi (expo x + 1)"
    by (simp add: ulp_def power_int_diff power_int_add)
  finally show ?thesis .
qed

lemma rnd_lower:
  assumes "2 powi (- 1022) \<le> x"
  shows "2 powi (expo x) \<le> rnd x"
proof -
  have pos: "0 \<le> x" using assms zero_less_power_int [of "2::real" "- 1022"] by linarith
  then have ax: "\<bar>x\<bar> = x" by simp
  have "2 powi (expo x) \<le> x" using expo_normal(1) [of x] assms ax by simp
  also have "2 powi (expo x) = ulp x * 2 ^ 52"
    by (simp add: ulp_def power_int_diff)
  finally have "of_int (2 ^ 52) \<le> x / ulp x" by (simp add: pos_le_divide_eq mult.commute)
  from rne_mono [OF this] have "2 ^ 52 \<le> rne (x / ulp x)" by (simp only: rne_of_int)
  then have "ulp x * of_int (2 ^ 52) \<le> ulp x * of_int (rne (x / ulp x))"
    by (intro mult_left_mono) simp_all
  then show ?thesis
    by (simp add: rnd_def ulp_def power_int_diff)
qed

lemma rnd_mono_nonneg:
  assumes "0 \<le> x" "x \<le> y"
  shows "rnd x \<le> rnd y"
proof (cases "expo x = expo y")
  case True
  then have u: "ulp x = ulp y" by (simp add: ulp_def)
  have "x / ulp y \<le> y / ulp y" using assms(2) by (simp add: divide_right_mono)
  from rne_mono [OF this] show ?thesis
    unfolding rnd_def u by (intro mult_left_mono) simp_all
next
  case False
  have "\<bar>x\<bar> \<le> \<bar>y\<bar>" using assms by simp
  from expo_mono [OF this] False have lt: "expo x + 1 \<le> expo y" by simp
  have ny: "2 powi (- 1022) \<le> y"
  proof (rule ccontr)
    assume "\<not> 2 powi (- 1022) \<le> y"
    then have "\<bar>y\<bar> < 2 powi (- 1022)" using assms by simp
    then have "expo y = - 1022" by (rule expo_subnormal)
    with lt expo_ge [of x] show False by simp
  qed
  have "rnd x \<le> 2 powi (expo x + 1)" by (rule rnd_upper [OF assms(1)])
  also have "\<dots> \<le> 2 powi (expo y)" using lt by (simp only: two_powi_le_iff)
  also have "\<dots> \<le> rnd y" by (rule rnd_lower [OF ny])
  finally show ?thesis .
qed

lemma rnd_mono:
  assumes "x \<le> y"
  shows "rnd x \<le> rnd y"
proof (cases "0 \<le> x")
  case True
  then show ?thesis using assms by (rule rnd_mono_nonneg)
next
  case nx: False
  show ?thesis
  proof (cases "0 \<le> y")
    case True
    have "rnd x \<le> 0" using nx by (intro rnd_nonpos) simp
    also have "0 \<le> rnd y" using True by (rule rnd_nonneg)
    finally show ?thesis .
  next
    case False
    then have "0 \<le> - y" "- y \<le> - x" using assms by simp_all
    from rnd_mono_nonneg [OF this] show ?thesis by simp
  qed
qed

text \<open>Representable numbers: an integer of at most 53 bits times a power of two.\<close>

lemma rnd_dyadic:
  assumes k: "\<bar>k\<bar> \<le> 2 ^ 53" and e: "- 1074 \<le> e"
  shows "rnd (of_int k * 2 powi e) = of_int k * 2 powi e"
proof -
  define x :: real where "x = of_int k * 2 powi e"
  have ax: "\<bar>x\<bar> = of_int \<bar>k\<bar> * 2 powi e" by (simp add: x_def abs_mult)
  have "\<exists>j. x / ulp x = of_int j"
  proof (cases "\<bar>k\<bar> = 2 ^ 53")
    case True
    then have ax': "\<bar>x\<bar> = 2 powi (e + 53)" by (simp add: ax power_int_add)
    have "(2::real) powi (e + 53) < 2 powi (e + 53 + 1)" by (simp add: two_powi_less_iff)
    then have "expo x = e + 53" using e ax' by (intro expo_unique) simp_all
    then have "ulp x = 2 powi (e + 1)" by (simp add: ulp_def add.commute)
    then have "x / ulp x = of_int k * (2 powi e / 2 powi (e + 1))" by (simp add: x_def)
    also have "(2::real) powi e / 2 powi (e + 1) = 1 / 2" by (simp add: power_int_add)
    finally have "x / ulp x = of_int k / 2" by simp
    moreover have "k = 2 ^ 53 \<or> k = - (2 ^ 53)" using True by linarith
    then have "even k" by auto
    then obtain j where "k = 2 * j" by (elim evenE)
    ultimately have "x / ulp x = of_int j" by simp
    then show ?thesis by blast
  next
    case False
    with k have "\<bar>k\<bar> < 2 ^ 53" by simp
    then have "(of_int \<bar>k\<bar> :: real) < 2 ^ 53" by (metis of_int_less_numeral_power_cancel_iff)
    then have lt: "\<bar>x\<bar> < 2 powi (e + 53)"
      by (simp add: ax power_int_add)
    have le: "expo x \<le> e + 52"
    proof (cases "\<bar>x\<bar> < 2 powi (- 1022)")
      case True
      then show ?thesis using e by (simp add: expo_subnormal)
    next
      case False
      then have "2 powi (expo x) \<le> \<bar>x\<bar>" by (intro expo_normal(1)) simp
      with lt have "(2::real) powi (expo x) < 2 powi (e + 53)" by linarith
      then show ?thesis by (simp add: two_powi_less_iff)
    qed
    define s where "s = nat (e + 52 - expo x)"
    have s: "int s = e + 52 - expo x" using le by (simp add: s_def)
    have "x / ulp x = of_int k * (2 powi e / 2 powi (expo x - 52))" by (simp add: x_def ulp_def)
    also have "(2::real) powi e / 2 powi (expo x - 52) = 2 powi (int s)"
    proof -
      have "(2::real) powi (e - (expo x - 52)) = 2 powi e / 2 powi (expo x - 52)"
        by (rule power_int_diff) simp
      moreover have "e - (expo x - 52) = int s" using s by simp
      ultimately show ?thesis by simp
    qed
    also have "of_int k * (2::real) powi (int s) = of_int (k * 2 ^ s)" by simp
    finally show ?thesis by blast
  qed
  then obtain j where j: "x / ulp x = of_int j" by blast
  have "rnd x = ulp x * of_int j" by (simp add: rnd_def j)
  also have "\<dots> = ulp x * (x / ulp x)" by (simp add: j)
  also have "\<dots> = x" by simp
  finally show ?thesis by (simp add: x_def)
qed

lemma rnd_idem [simp]: "rnd (rnd x) = rnd x"
proof -
  have "rnd x = of_int (rne (x / ulp x)) * 2 powi (expo x - 52)"
    by (simp add: rnd_def ulp_def mult.commute)
  moreover have "rnd (of_int (rne (x / ulp x)) * 2 powi (expo x - 52)) =
      of_int (rne (x / ulp x)) * 2 powi (expo x - 52)"
    using rne_div_ulp_bound [of x] expo_ge [of x] by (intro rnd_dyadic) simp_all
  ultimately show ?thesis by simp
qed

lemma rnd_of_int: "\<bar>k\<bar> \<le> 2 ^ 53 \<Longrightarrow> rnd (of_int k) = of_int k"
  using rnd_dyadic [of k 0] by simp

lemma rnd_eval:
  assumes "2 powi e \<le> \<bar>x\<bar>" "\<bar>x\<bar> < 2 powi (e + 1)" "- 1022 \<le> e"
  shows "rnd x = 2 powi (e - 52) * of_int (rne (x / 2 powi (e - 52)))"
  using expo_unique [OF assms] by (simp add: rnd_def ulp_def)


subsection \<open>Float operations\<close>

lemma rnd_two_powi: "- 1074 \<le> e \<Longrightarrow> rnd (2 powi e) = 2 powi e"
  using rnd_dyadic [of 1 e] by simp

lemma rnd_bounded:
  assumes "\<bar>x\<bar> \<le> B" "rnd B = B"
  shows "\<bar>rnd x\<bar> \<le> B"
proof -
  have "rnd x \<le> rnd B" using assms(1) by (intro rnd_mono) simp
  moreover have "rnd (- B) \<le> rnd x" using assms(1) by (intro rnd_mono) simp
  ultimately show ?thesis using assms(2) by simp
qed

lemma overflow_threshold_gt: "2 ^ 1023 < overflow_threshold"
  unfolding overflow_threshold_def by (intro power_strict_increasing) simp_all

lemma overflow_threshold_pos [simp]: "0 < overflow_threshold"
  by (simp add: overflow_threshold_def)

lemma b64_Fin:
  assumes "\<bar>x\<bar> \<le> 2 ^ 1023"
  shows "b64 x = Fin (rnd x)"
proof -
  have "rnd (2 ^ 1023 :: real) = 2 ^ 1023" using rnd_two_powi [of 1023] by simp
  from rnd_bounded [OF assms this] have "\<bar>rnd x\<bar> \<le> 2 ^ 1023" .
  then have "\<not> overflow_threshold \<le> rnd x" "\<not> rnd x \<le> - overflow_threshold"
    using overflow_threshold_gt by linarith+
  then show ?thesis by (simp add: b64_def Let_def)
qed

lemma b64_cases:
  obtains (fin) "b64 x = Fin (rnd x)" "\<bar>rnd x\<bar> < overflow_threshold"
  | (pos) "b64 x = PosInf" "overflow_threshold \<le> rnd x"
  | (neg) "b64 x = NegInf" "rnd x \<le> - overflow_threshold"
proof (cases "overflow_threshold \<le> rnd x")
  case True
  then show ?thesis using pos by (simp add: b64_def Let_def)
next
  case np: False
  show ?thesis
  proof (cases "rnd x \<le> - overflow_threshold")
    case True
    then show ?thesis using neg np by (simp add: b64_def Let_def)
  next
    case False
    then have "\<bar>rnd x\<bar> < overflow_threshold" using np by linarith
    then show ?thesis using fin np False by (simp add: b64_def Let_def)
  qed
qed

lemma b64_not_NaN [simp]: "b64 x \<noteq> NaN"
  by (cases x rule: b64_cases) simp_all

lemma b64_nonpos: "x \<le> 0 \<Longrightarrow> f_le (b64 x) (Fin 0)"
proof (cases x rule: b64_cases)
  case pos
  assume "x \<le> 0"
  then have "rnd x \<le> 0" by (rule rnd_nonpos)
  with pos(2) overflow_threshold_pos show ?thesis by linarith
qed (simp_all add: rnd_nonpos)

lemma b64_nonneg: "0 \<le> x \<Longrightarrow> f_le (Fin 0) (b64 x)"
proof (cases x rule: b64_cases)
  case neg
  assume "0 \<le> x"
  then have "0 \<le> rnd x" by (rule rnd_nonneg)
  with neg(2) overflow_threshold_pos show ?thesis by linarith
qed (simp_all add: rnd_nonneg)

lemma rnd_numeral [simp]: "numeral k \<le> (2 ^ 53 :: int) \<Longrightarrow> rnd (numeral k) = numeral k"
  using rnd_of_int [of "numeral k"] by simp

lemma rnd_1 [simp]: "rnd 1 = 1"
  using rnd_of_int [of 1] by simp

lemma b64_0 [simp]: "b64 0 = Fin 0"
  using b64_Fin [of 0] by simp

lemma b64_numeral [simp]: "numeral k \<le> (2 ^ 53 :: int) \<Longrightarrow> b64 (numeral k) = Fin (numeral k)"
proof -
  assume k: "numeral k \<le> (2 ^ 53 :: int)"
  then have "(numeral k :: real) \<le> 2 ^ 53" by (metis of_int_le_numeral_power_cancel_iff of_int_numeral)
  also have "(2::real) ^ 53 \<le> 2 ^ 1023" by (intro power_increasing) simp_all
  finally have "\<bar>numeral k :: real\<bar> \<le> 2 ^ 1023" by simp
  from b64_Fin [OF this] show ?thesis using k by simp
qed

lemma b64_1 [simp]: "b64 1 = Fin 1"
proof -
  have "\<bar>1::real\<bar> \<le> 2 ^ 1023" by (simp add: one_le_power)
  from b64_Fin [OF this] show ?thesis by simp
qed

lemma fsub_Fin: "fsub (Fin x) (Fin y) = b64 (x - y)"
  by (simp add: fsub_def)

lemma f_eq_Fin [simp]: "f_eq (Fin x) (Fin y) \<longleftrightarrow> x = y"
  by (auto simp: f_eq_def)

lemma f_lt_Fin [simp]: "f_lt (Fin x) (Fin y) \<longleftrightarrow> x < y"
  by (auto simp: f_lt_def)

text \<open>
  Evaluating a rounding: the exponent \<open>e\<close> and the integer nearest to the number at that
  exponent's spacing determine the result.
\<close>

lemma rnd_exact:
  assumes "2 powi e \<le> \<bar>x\<bar>" "\<bar>x\<bar> < 2 powi (e + 1)" "- 1022 \<le> e"
    and "\<bar>of_int k - x / 2 powi (e - 52)\<bar> < 1 / 2"
  shows "rnd x = of_int k * 2 powi (e - 52)"
proof -
  define t where "t = x / 2 powi (e - 52)"
  have "rne t = k"
  proof -
    have a: "\<bar>of_int (rne t) - t\<bar> \<le> 1 / 2" by (rule rne_err)
    have "\<bar>of_int k - t\<bar> < 1 / 2" using assms(4) by (simp add: t_def)
    with a have "\<bar>(of_int (rne t) :: real) - of_int k\<bar> < 1" by linarith
    then have "\<bar>rne t - k\<bar> < 1" by (metis of_int_abs of_int_diff of_int_less_1_iff)
    then show ?thesis by simp
  qed
  then show ?thesis using rnd_eval [OF assms(1-3)] by (simp add: t_def mult.commute)
qed

lemma two_powi_le_pow: "e \<le> int n \<Longrightarrow> (2::real) powi e \<le> 2 ^ n"
proof -
  assume "e \<le> int n"
  then have "(2::real) powi e \<le> 2 powi (int n)" by (intro power_int_increasing) simp_all
  then show ?thesis by (simp only: power_int_of_nat)
qed

lemma below_two_powi:
  assumes "\<bar>x\<bar> < 2 powi (e + 1)" "e \<le> 1022"
  shows "\<bar>x::real\<bar> \<le> 2 ^ 1023"
proof -
  have "e + 1 \<le> int 1023" using assms(2) by simp
  from two_powi_le_pow [OF this] assms(1) show ?thesis by linarith
qed

lemma b64_exact:
  assumes "2 powi e \<le> \<bar>x\<bar>" "\<bar>x\<bar> < 2 powi (e + 1)" "- 1022 \<le> e" "e \<le> 1022"
    and "\<bar>of_int k - x / 2 powi (e - 52)\<bar> < 1 / 2"
  shows "b64 x = Fin (of_int k * 2 powi (e - 52))"
proof -
  have "\<bar>x\<bar> \<le> 2 ^ 1023" by (rule below_two_powi [OF assms(2,4)])
  from b64_Fin [OF this] rnd_exact [OF assms(1-3,5)] show ?thesis by simp
qed

text \<open>A tie between two neighbours goes to the even one.\<close>

lemma b64_tie:
  assumes "2 powi e \<le> \<bar>x\<bar>" "\<bar>x\<bar> < 2 powi (e + 1)" "- 1022 \<le> e" "e \<le> 1022"
    and "x / 2 powi (e - 52) = of_int k + 1 / 2"
  shows "b64 x = Fin (of_int (if even k then k else k + 1) * 2 powi (e - 52))"
proof -
  define t where "t = x / 2 powi (e - 52)"
  have t: "t = of_int k + 1 / 2" using assms(5) by (simp add: t_def)
  have fl: "\<lfloor>t\<rfloor> = k" unfolding t by (rule floor_unique) simp_all
  have "rne t = (if even k then k else k + 1)"
    unfolding rne_def Let_def fl by (simp add: t)
  then have "rnd x = of_int (if even k then k else k + 1) * 2 powi (e - 52)"
    using rnd_eval [OF assms(1-3)] by (simp only: t_def mult.commute)
  moreover have "\<bar>x\<bar> \<le> 2 ^ 1023" by (rule below_two_powi [OF assms(2,4)])
  ultimately show ?thesis using b64_Fin [of x] by simp
qed


lemma two_powi_neg: "(2::real) powi (- int n) = 1 / 2 ^ n"
  by (simp add: power_int_minus inverse_eq_divide)

lemma rnd_inv_pow2: "n \<le> 1074 \<Longrightarrow> rnd (1 / 2 ^ n) = 1 / 2 ^ n"
  using rnd_two_powi [of "- int n"] by (simp only: two_powi_neg)


subsection \<open>Savings goal calculator\<close>

text \<open>
  C5, as the code has it. The check of \<open>monthly_savings\<close> comes before the check of
  the remaining amount. So for every input with \<open>current_savings \<ge> goal_amount\<close> the
  calculator reports that the goal is already reached exactly when
  \<open>monthly_savings > 0\<close>, whatever the two rates are; with \<open>monthly_savings \<le> 0\<close> it
  reports the invalid monthly savings instead. No exception is raised either way.
\<close>

theorem solveSavingsGoal_goal_reached:
  assumes "goal_amount \<le> current_savings"
  shows "solveSavingsGoal lm now goal_amount monthly_savings current_savings interest_rate
           inflation_rate =
         Inr (if monthly_savings \<le> 0 then InvalidInput else GoalAlreadyReached)"
proof -
  have "f_le (b64 (goal_amount - current_savings)) (Fin 0)"
    using assms by (intro b64_nonpos) simp
  then show ?thesis by (simp add: solveSavingsGoal_def fsub_Fin)
qed

theorem solveSavingsGoal_goal_reached_witness:
  "(100::real) \<le> 200 \<and>
   solveSavingsGoal libm_exact 0 100 50 200 3.5 2 = Inr GoalAlreadyReached"
  using solveSavingsGoal_goal_reached [of 100 200 libm_exact 0 50 "3.5" 2] by simp

text \<open>
  Savings of 200 against a goal of 100, with monthly savings of 0: the result is the
  error about the monthly savings, not the message that the goal is reached.
\<close>

theorem solveSavingsGoal_reached_but_invalid:
  "solveSavingsGoal libm_exact 0 100 0 200 0 0 = Inr InvalidInput"
  by (simp add: solveSavingsGoal_def)


lemma timedelta_days_30_pos: "0 < timedelta_days 30"
  by (simp add: timedelta_days_def)

lemma savings_loop_ok:
  assumes "0 \<le> d" "d + timedelta_days 30 * int k \<le> datetime_max"
  shows "\<exists>rows. savings_loop k d a r ms = Inr rows \<and> length rows = k \<and>
           (0 < k \<longrightarrow> hd rows = \<lparr>sv_date = d, sv_amount = a\<rparr>)"
  using assms
proof (induction k arbitrary: d a)
  case 0
  then show ?case by simp
next
  case (Suc k)
  have step: "d + timedelta_days 30 \<le> datetime_max"
  proof -
    have "0 \<le> timedelta_days 30 * int k" using timedelta_days_30_pos by simp
    moreover have "d + timedelta_days 30 * int (Suc k) =
        d + timedelta_days 30 + timedelta_days 30 * int k" by (simp add: algebra_simps)
    ultimately show ?thesis using Suc.prems(2) by linarith
  qed
  have nn: "0 \<le> d + timedelta_days 30" using Suc.prems(1) timedelta_days_30_pos by linarith
  have dt: "dt_add d (timedelta_days 30) = Inr (d + timedelta_days 30)"
    using step nn by (simp add: dt_add_def)
  have "d + timedelta_days 30 + timedelta_days 30 * int k \<le> datetime_max"
    using Suc.prems(2) by (simp add: algebra_simps)
  from Suc.IH [OF nn this, of "fadd (fmul a (fadd (Fin 1) r)) ms"]
  obtain rows where "savings_loop k (d + timedelta_days 30)
      (fadd (fmul a (fadd (Fin 1) r)) ms) r ms = Inr rows" "length rows = k" by blast
  then show ?case by (simp add: dt)
qed

lemma savings_loop_overflow:
  assumes "0 \<le> d" "d \<le> datetime_max" "datetime_max < d + timedelta_days 30 * int k"
  shows "savings_loop k d a r ms = Inl OverflowError"
  using assms
proof (induction k arbitrary: d a)
  case 0
  then show ?case by simp
next
  case (Suc k)
  show ?case
  proof (cases "datetime_max < d + timedelta_days 30")
    case True
    then show ?thesis by (simp add: dt_add_def)
  next
    case False
    have nn: "0 \<le> d + timedelta_days 30" using Suc.prems(1) timedelta_days_30_pos by linarith
    have dt: "dt_add d (timedelta_days 30) = Inr (d + timedelta_days 30)"
      using False nn by (simp add: dt_add_def)
    have le: "d + timedelta_days 30 \<le> datetime_max" using False by simp
    have "datetime_max < d + timedelta_days 30 + timedelta_days 30 * int k"
      using Suc.prems(3) by (simp add: algebra_simps)
    from Suc.IH [OF nn le this] show ?thesis by (simp add: dt)
  qed
qed

lemma py_int_ceil: "py_int (np_ceil (Fin x)) = Inr \<lceil>x\<rceil>"
  by simp

lemma months_to_goal_spec:
  assumes "spec_months lm r rem ms = Some q"
  shows "months_to_goal lm (Fin r) (Fin rem) (Fin ms) = Inr (max 1 \<lceil>q\<rceil>)"
proof (cases "r = 0")
  case True
  with assms have "fin_of (ieee_div (Fin rem) (Fin ms)) = Some q" by (simp add: spec_months_def)
  then have "ieee_div (Fin rem) (Fin ms) = Fin q"
    by (cases "ieee_div (Fin rem) (Fin ms)") simp_all
  then show ?thesis using True by (simp add: months_to_goal_def Let_def del: ieee_div.simps)
next
  case False
  define A where "A = fadd (Fin 1) (ieee_div (fmul (Fin r) (Fin rem)) (Fin ms))"
  define B where "B = fadd (Fin 1) (Fin r)"
  from assms False obtain a b where ab: "A = Fin a" "B = Fin b" "0 < a" "0 < b"
    and q: "fin_of (ieee_div (Fin (m_log lm a)) (Fin (m_log lm b))) = Some q"
    unfolding spec_months_def A_def [symmetric] B_def [symmetric]
    by (cases A; cases B) (auto split: if_splits)
  from q have "ieee_div (Fin (m_log lm a)) (Fin (m_log lm b)) = Fin q"
    by (cases "ieee_div (Fin (m_log lm a)) (Fin (m_log lm b))") simp_all
  then show ?thesis
    using False ab
    unfolding months_to_goal_def Let_def A_def [symmetric] B_def [symmetric]
    by (simp del: ieee_div.simps fadd.simps fmul.simps)
qed

text \<open>
  C1, as the code has it. Let \<open>remaining\<close>, the float \<open>goal_amount - current_savings\<close>,
  be above 0 and \<open>monthly_savings > 0\<close>, let the two rates as fractions be finite, let
  the clock show a valid \<open>datetime\<close>, and
  let the specification's monthly rate and its months have a value in binary64 (every
  intermediate result finite, no zero divisor, both logarithms of a positive number).
  Then the month count of line 129 is those months rounded up to the next integer and
  raised to at least 1. The calculator reports it, with a projection of that many
  months plus one rows, when the dates of the projection stay within the range of
  \<open>datetime\<close>, and raises \<open>OverflowError\<close> when they do not.
\<close>

theorem months_to_goal_formula:
  assumes "0 < monthly_savings"
    and "fsub (Fin goal_amount) (Fin current_savings) = Fin remaining" "0 < remaining"
    and "b64 (interest_rate / 100) = Fin interestRate"
    and "b64 (inflation_rate / 100) = Fin inflationRate"
    and "spec_monthly_rate interestRate inflationRate = Some monthlyRate"
    and "spec_months lm monthlyRate remaining monthly_savings = Some months"
    and "0 \<le> now" "now \<le> datetime_max"
  shows "months_to_goal lm (Fin monthlyRate) (Fin remaining) (Fin monthly_savings) =
           Inr (max 1 \<lceil>months\<rceil>) \<and>
         (now + timedelta_days 30 * (max 1 \<lceil>months\<rceil> + 1) \<le> datetime_max \<longrightarrow>
            (\<exists>p. solveSavingsGoal lm now goal_amount monthly_savings current_savings
                    interest_rate inflation_rate = Inr (TimeToGoal p) \<and>
                 sg_months p = max 1 \<lceil>months\<rceil> \<and>
                 length (sg_series p) = nat (max 1 \<lceil>months\<rceil> + 1))) \<and>
         (datetime_max < now + timedelta_days 30 * (max 1 \<lceil>months\<rceil> + 1) \<longrightarrow>
            solveSavingsGoal lm now goal_amount monthly_savings current_savings
              interest_rate inflation_rate = Inl OverflowError)"
proof -
  define M where "M = max 1 \<lceil>months\<rceil>"
  have M1: "0 \<le> M + 1" by (simp add: M_def)
  have m: "months_to_goal lm (Fin monthlyRate) (Fin remaining) (Fin monthly_savings) = Inr M"
    unfolding M_def by (rule months_to_goal_spec [OF assms(7)])
  define D where "D = fadd (Fin 1) (Fin inflationRate)"
  define N where "N = fadd (Fin 1) (Fin interestRate)"
  from assms(6) obtain d where d: "D = Fin d" "d \<noteq> 0"
    and r: "fin_of (ieee_div (fsub (ieee_div N (Fin d)) (Fin 1)) (Fin 12)) = Some monthlyRate"
    unfolding spec_monthly_rate_def D_def [symmetric] N_def [symmetric]
    by (cases D) (auto split: if_splits)
  from r have rate: "ieee_div (fsub (ieee_div N (Fin d)) (Fin 1)) (Fin 12) = Fin monthlyRate"
    by (cases "ieee_div (fsub (ieee_div N (Fin d)) (Fin 1)) (Fin 12)") simp_all
  have nle: "\<not> f_le (Fin remaining) (Fin 0)" using assms(3) by simp
  have pre: "solveSavingsGoal lm now goal_amount monthly_savings current_savings
      interest_rate inflation_rate =
      (case savings_loop (nat (M + 1)) now (Fin current_savings) (Fin monthlyRate)
              (Fin monthly_savings) of
         Inl e \<Rightarrow> Inl e
       | Inr rows \<Rightarrow>
           Inr (TimeToGoal
             \<lparr>sg_months = M, sg_years = M div 12, sg_remaining_months = M mod 12,
              sg_series = rows, sg_final_amount = sv_amount (last rows)\<rparr>))"
    using assms(1) nle d rate m
    unfolding solveSavingsGoal_def Let_def assms(2) assms(4) assms(5)
      D_def [symmetric] N_def [symmetric]
    by (simp add: py_div_def del: ieee_div.simps fadd.simps)
  have ok: "\<exists>p. solveSavingsGoal lm now goal_amount monthly_savings current_savings
                    interest_rate inflation_rate = Inr (TimeToGoal p) \<and>
                 sg_months p = M \<and> length (sg_series p) = nat (M + 1)"
    if "now + timedelta_days 30 * (M + 1) \<le> datetime_max"
  proof -
    have "now + timedelta_days 30 * int (nat (M + 1)) \<le> datetime_max"
      using that M1 by simp
    from savings_loop_ok [OF assms(8) this]
    obtain rows where "savings_loop (nat (M + 1)) now (Fin current_savings) (Fin monthlyRate)
        (Fin monthly_savings) = Inr rows" "length rows = nat (M + 1)" by blast
    then show ?thesis by (simp add: pre)
  qed
  have bad: "solveSavingsGoal lm now goal_amount monthly_savings current_savings
              interest_rate inflation_rate = Inl OverflowError"
    if "datetime_max < now + timedelta_days 30 * (M + 1)"
  proof -
    have "datetime_max < now + timedelta_days 30 * int (nat (M + 1))"
      using that M1 by simp
    from savings_loop_overflow [OF assms(8,9) this] show ?thesis by (simp add: pre)
  qed
  show ?thesis using m ok bad unfolding M_def by blast
qed


text \<open>The default goal of the form, without interest or inflation, at midnight of 2026-11-04.\<close>

theorem months_to_goal_formula_witness:
  "(0::real) < 500 \<and> fsub (Fin 10000) (Fin 0) = Fin 10000 \<and> (0::real) < 10000 \<and>
   b64 (0 / 100) = Fin 0 \<and> spec_monthly_rate 0 0 = Some 0 \<and>
   spec_months libm_exact 0 10000 500 = Some 20 \<and>
   (0::int) \<le> 63929347200000000 \<and> 63929347200000000 \<le> datetime_max \<and>
   months_to_goal libm_exact (Fin 0) (Fin 10000) (Fin 500) = Inr 20 \<and>
   (\<exists>p. solveSavingsGoal libm_exact 63929347200000000 10000 500 0 0 0 = Inr (TimeToGoal p) \<and>
        sg_months p = 20 \<and> length (sg_series p) = 21)"
proof -
  have h: "fsub (Fin 10000) (Fin 0) = Fin 10000" "b64 (0 / 100) = Fin 0"
    "spec_monthly_rate 0 0 = Some 0" "spec_months libm_exact 0 10000 500 = Some 20"
    by (simp_all add: fsub_Fin spec_monthly_rate_def spec_months_def)
  have c: "(0::real) < 500" "(0::real) < 10000" "(0::int) \<le> 63929347200000000"
    "63929347200000000 \<le> datetime_max"
    by (simp_all add: datetime_max_def)
  from months_to_goal_formula [OF c(1) h(1) c(2) h(2) h(2) h(3) h(4) c(3) c(4)]
  show ?thesis using h c by (simp add: timedelta_days_def datetime_max_def)
qed

text \<open>
  Without the condition on the logarithm's argument the month count is not produced.
  A goal of 10000 with 1 a month, no interest and 10 percent inflation (all within the
  ranges of the form) has \<open>remaining = 10000 > 0\<close> and \<open>monthly_savings = 1 > 0\<close>; the
  monthly rate is about \<open>-0.0076\<close>, the argument of \<open>np.log\<close> is about \<open>-74.76\<close>, the
  quotient is \<open>nan\<close>, and \<open>int\<close> raises \<open>ValueError\<close>. The steps are the roundings of
  lines 120 to 127 in turn.
\<close>

theorem months_to_goal_out_of_reach_raises:
  "solveSavingsGoal libm_exact 63929347200000000 10000 1 0 0 10 = Inl ValueError"
proof -
  have s1: "b64 (1 / 10) = Fin (3602879701896397 / 36028797018963968)"
    by (rule b64_exact [where e = "- 4" and k = 7205759403792794, THEN trans]) simp_all
  have s2: "b64 (39631676720860365 / 36028797018963968) = Fin (2476979795053773 / 2251799813685248)"
    by (rule b64_exact [where e = 0 and k = 4953959590107546, THEN trans]) simp_all
  have s3: "b64 (2251799813685248 / 2476979795053773) = Fin (8188362958855447 / 9007199254740992)"
    by (rule b64_exact [where e = "- 1" and k = 8188362958855447, THEN trans]) simp_all
  have s4: "b64 (- (818836295885545 / 9007199254740992)) = Fin (- (818836295885545 / 9007199254740992))"
    by (rule b64_exact [where e = "- 4" and k = "- 6550690367084360", THEN trans]) simp_all
  have s5: "b64 (- (818836295885545 / 108086391056891904)) = Fin (- (8734253822779147 / 1152921504606846976))"
    by (rule b64_exact [where e = "- 8" and k = "- 8734253822779147", THEN trans]) simp_all
  have s6: "b64 (- (5458908639236966875 / 72057594037927936)) = Fin (- (2665482734002425 / 35184372088832))"
    by (rule b64_exact [where e = 6 and k = "- 5330965468004850", THEN trans]) simp_all
  have s7: "b64 (- (2665482734002425 / 35184372088832)) = Fin (- (2665482734002425 / 35184372088832))"
    by (rule b64_exact [where e = 6 and k = "- 5330965468004850", THEN trans]) simp_all
  have s8: "b64 (- (2630298361913593 / 35184372088832)) = Fin (- (2630298361913593 / 35184372088832))"
    by (rule b64_exact [where e = 6 and k = "- 5260596723827186", THEN trans]) simp_all
  have s9: "b64 (1144187250784067829 / 1152921504606846976) = Fin (4469481448375265 / 4503599627370496)"
    by (rule b64_exact [where e = "- 1" and k = 8938962896750530, THEN trans]) simp_all
  show ?thesis
    by (simp add: solveSavingsGoal_def fsub_Fin py_div_def months_to_goal_def Let_def
          s1 s2 s3 s4 s5 s6 s7 s8 s9)
qed

subsection \<open>Investment simulator\<close>

lemma pow_okD:
  assumes "pow_ok lm" "1 \<le> x" "0 \<le> y" "x powr y < 2 ^ 1023"
  obtains w where "m_pow lm x y = Fin w" "\<bar>w - x powr y\<bar> \<le> x powr y / 2 ^ 52"
  using assms unfolding pow_ok_def by blast

lemma pow_ok_libm_exact: "pow_ok libm_exact"
  unfolding pow_ok_def
proof (intro allI impI)
  fix x y :: real
  assume h: "1 \<le> x \<and> 0 \<le> y \<and> x powr y < 2 ^ 1023"
  define z where "z = x powr y"
  have z1: "1 \<le> z" unfolding z_def using h by (intro ge_one_powr_ge_zero) simp_all
  have zr: "\<bar>z\<bar> \<le> 2 ^ 1023" using h z1 by (simp add: z_def)
  have "(2::real) powi (- 1022) \<le> 2 powi 0" by (simp only: two_powi_le_iff)
  then have "2 powi (- 1022) \<le> \<bar>z\<bar>" using z1 by simp
  from rnd_rel [OF this] have "\<bar>rnd z - z\<bar> \<le> z / 2 ^ 53" using z1 by simp
  also have "\<dots> \<le> z / 2 ^ 52" using z1 by (intro divide_left_mono) simp_all
  finally have "\<bar>rnd z - z\<bar> \<le> z / 2 ^ 52" .
  then show "\<exists>w. m_pow libm_exact x y = Fin w \<and> \<bar>w - x powr y\<bar> \<le> x powr y / 2 ^ 52"
    using b64_Fin [OF zr] by (simp add: libm_exact_def z_def)
qed

lemma rnd_twelfth: "rnd (1 / 12) = 6004799503160661 / 72057594037927936"
  by (rule rnd_exact [where e = "- 4" and k = 6004799503160661, THEN trans]) simp_all

text \<open>
  For an annual figure from 0 up to the largest float, the monthly figure is the
  library's power, minus 1; the power is at least \<open>1 - 2 ^ -52\<close>, so one plus the
  monthly figure is above 0.
\<close>

lemma monthly_of_annual_ok:
  assumes "pow_ok lm" "0 \<le> annual" "annual < overflow_threshold"
  shows "\<exists>x w m. fadd (Fin 1) (b64 (annual / 100)) = Fin x \<and> 1 \<le> x \<and>
           \<bar>w - x powr rnd (1 / 12)\<bar> \<le> x powr rnd (1 / 12) / 2 ^ 52 \<and>
           monthly_of_annual lm annual = Inr (Fin m) \<and> m = rnd (w - 1) \<and>
           - (1 / 2 ^ 52) \<le> m \<and> m \<le> 2 ^ 1020"
proof -
  define y :: real where "y = rnd (1 / 12)"
  have y: "0 < y" "y \<le> 1" "y \<noteq> 0" by (simp_all add: y_def rnd_twelfth)
  have thr: "overflow_threshold / 100 \<le> 2 ^ 1018"
    by (simp add: overflow_threshold_def)
  have a100: "\<bar>annual / 100\<bar> \<le> 2 ^ 1018" using assms(2,3) thr by simp
  have p1: "(2::real) ^ 1018 \<le> 2 ^ 1023" by (intro power_increasing) simp_all
  have f: "b64 (annual / 100) = Fin (rnd (annual / 100))"
    using a100 p1 by (intro b64_Fin) linarith
  have r18: "rnd (2 ^ 1018 :: real) = 2 ^ 1018" using rnd_two_powi [of 1018] by simp
  have fb: "\<bar>rnd (annual / 100)\<bar> \<le> 2 ^ 1018" by (rule rnd_bounded [OF a100 r18])
  have f0: "0 \<le> rnd (annual / 100)" using assms(2) by (intro rnd_nonneg) simp
  define x where "x = rnd (1 + rnd (annual / 100))"
  have "(1::real) \<le> 2 ^ 1018" by (simp add: one_le_power)
  then have "1 + rnd (annual / 100) \<le> 2 ^ 1018 + 2 ^ 1018" using fb by linarith
  also have "\<dots> = (2::real) ^ 1019" by simp
  finally have s19: "\<bar>1 + rnd (annual / 100)\<bar> \<le> 2 ^ 1019" using f0 by simp
  have p2: "(2::real) ^ 1019 \<le> 2 ^ 1023" by (intro power_increasing) simp_all
  have fx: "fadd (Fin 1) (b64 (annual / 100)) = Fin x"
    using s19 p2 unfolding f x_def by (simp add: b64_Fin)
  have r19: "rnd (2 ^ 1019 :: real) = 2 ^ 1019" using rnd_two_powi [of 1019] by simp
  have xb: "\<bar>x\<bar> \<le> 2 ^ 1019" unfolding x_def by (rule rnd_bounded [OF s19 r19])
  have x1: "1 \<le> x"
  proof -
    have "rnd 1 \<le> rnd (1 + rnd (annual / 100))" using f0 by (intro rnd_mono) simp
    then show ?thesis by (simp add: x_def)
  qed
  have pw1: "1 \<le> x powr y" using x1 y by (intro ge_one_powr_ge_zero) simp_all
  have "x powr y \<le> x powr 1" using x1 y by (intro powr_mono) simp_all
  also have "\<dots> = x" using x1 by simp
  also have "\<dots> \<le> 2 ^ 1019" using xb by simp
  also have "\<dots> < (2::real) ^ 1023" by (intro power_strict_increasing) simp_all
  finally have small: "x powr y < 2 ^ 1023" .
  have "\<exists>w. py_pow lm (Fin x) y = Inr (Fin w) \<and> \<bar>w - x powr y\<bar> \<le> x powr y / 2 ^ 52"
  proof (cases "x = 1")
    case True
    then show ?thesis using y by (simp add: py_pow_def)
  next
    case False
    from pow_okD [OF assms(1) x1 _ small] y obtain w where
      w: "m_pow lm x y = Fin w" "\<bar>w - x powr y\<bar> \<le> x powr y / 2 ^ 52" by auto
    have "\<bar>x\<bar> = x" using x1 by simp
    then show ?thesis using False x1 y w by (simp add: py_pow_def)
  qed
  then obtain w where w: "py_pow lm (Fin x) y = Inr (Fin w)"
    "\<bar>w - x powr y\<bar> \<le> x powr y / 2 ^ 52" by blast
  have wlo: "1 - 1 / 2 ^ 52 \<le> w"
  proof -
    have "x powr y - x powr y / 2 ^ 52 \<le> w" using w(2) by linarith
    moreover have "1 * (1 - 1 / 2 ^ 52) \<le> x powr y * (1 - 1 / 2 ^ 52 :: real)"
      using pw1 by (intro mult_right_mono) simp_all
    ultimately show ?thesis by (simp add: algebra_simps)
  qed
  have whi: "w \<le> 2 ^ 1020"
  proof -
    have "w \<le> x powr y + x powr y / 2 ^ 52" using w(2) by linarith
    also have "\<dots> \<le> x powr y + x powr y" using pw1 by (simp add: field_simps)
    also have "\<dots> \<le> 2 ^ 1019 + 2 ^ 1019"
      using \<open>x powr y \<le> x powr 1\<close> x1 xb by simp
    also have "\<dots> = (2::real) ^ 1020" by simp
    finally show ?thesis .
  qed
  have w1: "\<bar>w - 1\<bar> \<le> 2 ^ 1020"
  proof -
    have "(0::real) \<le> 1 / 2 ^ 52" by simp
    moreover have "(1::real) / 2 ^ 52 \<le> 1" by (simp add: field_simps one_le_power)
    moreover have "(1::real) \<le> 2 ^ 1020" by (simp add: one_le_power)
    ultimately show ?thesis using wlo whi by (simp add: abs_le_iff)
  qed
  have p3: "(2::real) ^ 1020 \<le> 2 ^ 1023" by (intro power_increasing) simp_all
  have m: "fsub (Fin w) (Fin 1) = Fin (rnd (w - 1))"
    using w1 p3 by (simp add: fsub_Fin b64_Fin)
  have "rnd (- (1 / 2 ^ 52)) \<le> rnd (w - 1)" using wlo by (intro rnd_mono) simp
  moreover have "rnd (- (1 / 2 ^ 52) :: real) = - (1 / 2 ^ 52)"
    using rnd_inv_pow2 [of 52] by (simp only: rnd_minus)
  ultimately have mlo: "- (1 / 2 ^ 52) \<le> rnd (w - 1)" by simp
  have r20: "rnd (2 ^ 1020 :: real) = 2 ^ 1020" using rnd_two_powi [of 1020] by simp
  have mhi: "rnd (w - 1) \<le> 2 ^ 1020" using rnd_bounded [OF w1 r20] by simp
  have "monthly_of_annual lm annual = Inr (Fin (rnd (w - 1)))"
    by (simp add: monthly_of_annual_def fx y_def [symmetric] w(1) m)
  then show ?thesis using fx x1 w(2) mlo mhi unfolding y_def by blast
qed


lemma one_plus_monthly:
  assumes "- (1 / 2 ^ 52) \<le> m" "m \<le> 2 ^ 1020"
  shows "\<exists>v. fadd (Fin 1) (Fin m) = Fin v \<and> 0 < v"
proof -
  have "(1::real) \<le> 2 ^ 1020" by (simp add: one_le_power)
  then have "1 + m \<le> 2 ^ 1020 + 2 ^ 1020" using assms(2) by linarith
  also have "\<dots> = (2::real) ^ 1021" by simp
  also have "\<dots> \<le> (2::real) ^ 1023" by (intro power_increasing) simp_all
  finally have hi: "1 + m \<le> 2 ^ 1023" .
  have lo: "1 - 1 / 2 ^ 52 \<le> 1 + m" using assms(1) by simp
  have "(0::real) < 1 - 1 / 2 ^ 52" by (simp add: field_simps)
  then have "\<bar>1 + m\<bar> \<le> 2 ^ 1023" using hi lo by simp
  then have f: "fadd (Fin 1) (Fin m) = Fin (rnd (1 + m))" by (simp add: b64_Fin)
  have "rnd (1 - 1 / 2 ^ 52 :: real) = 1 - 1 / 2 ^ 52"
  proof -
    have "(1::real) - 1 / 2 ^ 52 = of_int (2 ^ 52 - 1) * 2 powi (- 52)"
      by (simp add: power_int_minus field_simps)
    moreover have "rnd (of_int (2 ^ 52 - 1) * 2 powi (- 52)) = of_int (2 ^ 52 - 1) * 2 powi (- 52)"
      by (rule rnd_dyadic) simp_all
    ultimately show ?thesis by simp
  qed
  moreover have "rnd (1 - 1 / 2 ^ 52) \<le> rnd (1 + m)" using lo by (rule rnd_mono)
  ultimately have "0 < rnd (1 + m)" using \<open>(0::real) < 1 - 1 / 2 ^ 52\<close> by linarith
  with f show ?thesis by blast
qed

text \<open>
  The loop on its way to \<open>month = months\<close>: with \<open>months - month\<close> updates left, it
  returns its rows when the last date stays in range and raises when it does not. Each
  row but the first is the update of the row before it.
\<close>

lemma investment_loop_ok:
  assumes "m + int k = months + 1" "0 \<le> iv_date cur"
    and "iv_date cur + timedelta_days 30 * (months - m) \<le> datetime_max"
  shows "\<exists>rows. investment_loop k m months mr rmr mc cur = Inr rows \<and> length rows = k \<and>
           (0 < k \<longrightarrow> rows ! 0 = cur) \<and>
           (\<forall>i. Suc i < k \<longrightarrow>
              rows ! Suc i =
                invest_step mr rmr mc (iv_date (rows ! i) + timedelta_days 30) (rows ! i))"
  using assms
proof (induction k arbitrary: m cur)
  case 0
  then show ?case by simp
next
  case (Suc k)
  show ?case
  proof (cases "m < months")
    case True
    define nxt where "nxt = invest_step mr rmr mc (iv_date cur + timedelta_days 30) cur"
    have pos: "0 < months - m" using True by simp
    have "timedelta_days 30 * 1 \<le> timedelta_days 30 * (months - m)"
      using pos timedelta_days_30_pos by (intro mult_left_mono) simp_all
    then have le: "iv_date cur + timedelta_days 30 \<le> datetime_max"
      using Suc.prems(3) by simp
    have nn: "0 \<le> iv_date cur + timedelta_days 30"
      using Suc.prems(2) timedelta_days_30_pos by linarith
    have dt: "dt_add (iv_date cur) (timedelta_days 30) = Inr (iv_date cur + timedelta_days 30)"
      using le nn by (simp add: dt_add_def)
    have d: "iv_date nxt = iv_date cur + timedelta_days 30" by (simp add: nxt_def invest_step_def)
    have a: "(m + 1) + int k = months + 1" using Suc.prems(1) by simp
    have b: "0 \<le> iv_date nxt" using nn d by simp
    have c: "iv_date nxt + timedelta_days 30 * (months - (m + 1)) \<le> datetime_max"
      using Suc.prems(3) d by (simp add: algebra_simps)
    from Suc.IH [OF a b c] obtain rows where
      rows: "investment_loop k (m + 1) months mr rmr mc nxt = Inr rows" "length rows = k"
        "0 < k \<longrightarrow> rows ! 0 = nxt"
        "\<forall>i. Suc i < k \<longrightarrow>
           rows ! Suc i =
             invest_step mr rmr mc (iv_date (rows ! i) + timedelta_days 30) (rows ! i)"
      by blast
    have k: "0 < k" using True Suc.prems(1) by simp
    have res: "investment_loop (Suc k) m months mr rmr mc cur = Inr (cur # rows)"
      using True dt rows(1) by (simp add: nxt_def)
    have step: "(cur # rows) ! Suc i =
        invest_step mr rmr mc (iv_date ((cur # rows) ! i) + timedelta_days 30) ((cur # rows) ! i)"
      if "Suc i < Suc k" for i
    proof (cases i)
      case 0
      then show ?thesis using rows(3) k by (simp add: nxt_def)
    next
      case (Suc j)
      then show ?thesis using rows(4) that by simp
    qed
    show ?thesis using res rows(2) step by auto
  next
    case False
    then have "k = 0" using Suc.prems(1) by simp
    then show ?thesis using False by simp
  qed
qed

lemma investment_loop_overflow:
  assumes "m + int k = months + 1" "0 \<le> iv_date cur" "iv_date cur \<le> datetime_max"
    and "datetime_max < iv_date cur + timedelta_days 30 * (months - m)"
  shows "investment_loop k m months mr rmr mc cur = Inl OverflowError"
  using assms
proof (induction k arbitrary: m cur)
  case 0
  then have "months - m = - 1" by simp
  then have "timedelta_days 30 * (months - m) < 0" using timedelta_days_30_pos by simp
  then show ?case using "0.prems" by linarith
next
  case (Suc k)
  show ?case
  proof (cases "m < months")
    case True
    show ?thesis
    proof (cases "datetime_max < iv_date cur + timedelta_days 30")
      case True
      then show ?thesis using \<open>m < months\<close> by (simp add: dt_add_def)
    next
      case False
      define nxt where "nxt = invest_step mr rmr mc (iv_date cur + timedelta_days 30) cur"
      have nn: "0 \<le> iv_date cur + timedelta_days 30"
        using Suc.prems(2) timedelta_days_30_pos by linarith
      have dt: "dt_add (iv_date cur) (timedelta_days 30) = Inr (iv_date cur + timedelta_days 30)"
        using False nn by (simp add: dt_add_def)
      have d: "iv_date nxt = iv_date cur + timedelta_days 30"
        by (simp add: nxt_def invest_step_def)
      have a: "(m + 1) + int k = months + 1" using Suc.prems(1) by simp
      have b: "0 \<le> iv_date nxt" using nn d by simp
      have b': "iv_date nxt \<le> datetime_max" using False d by simp
      have c: "datetime_max < iv_date nxt + timedelta_days 30 * (months - (m + 1))"
        using Suc.prems(4) d by (simp add: algebra_simps)
      from Suc.IH [OF a b b' c] show ?thesis using \<open>m < months\<close> dt by (simp add: nxt_def)
    qed
  next
    case False
    then have "months - m = 0" using Suc.prems(1) by simp
    then show ?thesis using Suc.prems(3,4) by simp
  qed
qed


end
